theory Spec2Isabelle
  imports Complex_Main "HOL-Library.AList"
begin

section \<open>The stochastic graph-based planner of rl-agents\<close>

text \<open>
  A shallow embedding of \<^verbatim>\<open>rl_agents/agents/tree_search/graph_based_stochastic.py\<close>.
  Python objects are records passed by value and written back by the caller, dictionaries
  are association lists (order of insertion kept, as \<^verbatim>\<open>OrderedDict\<close> does) or maps,
  exceptions are the left summand of the result, and floating-point numbers are idealised
  as reals.
\<close>

subsection \<open>Data\<close>

type_synonym action = nat

datatype error =
    ValueError string
  | KeyError string
  | IndexError
  | ZeroDivisionError
  | Exception string

text \<open>The two attribute names that \<^verbatim>\<open>backup\<close>, \<^verbatim>\<open>get_field\<close> and
  \<^verbatim>\<open>partial_value_iteration\<close> are called with: "value_upper" and "value_lower".\<close>

datatype bound_field = Value_upper | Value_lower

text \<open>A threshold formula is a configured expression that the code passes to
  \<^verbatim>\<open>eval\<close> with the variables horizon, actions, count and time in scope.\<close>

type_synonym formula = "nat \<Rightarrow> nat \<Rightarrow> nat \<Rightarrow> nat \<Rightarrow> real"

record config =
  horizon :: "nat option"
  episodes :: "nat option"
  budget :: int
  gamma :: real
  accuracy :: real
  max_next_states_count :: nat
  upper_bound_type :: string
  upper_bound_threshold :: formula
  upper_bound_transition_threshold :: formula

text \<open>
  Routines that the file imports from other modules and whose code is not part of it:
  \<^verbatim>\<open>kl_upper_bound\<close> and \<^verbatim>\<open>max_expectation_under_constraint\<close> (rl_agents.utils),
  \<^verbatim>\<open>OLOP.allocation\<close>, \<^verbatim>\<open>random_argmax\<close> of the node base class (its first argument
  numbers the draw, so that two draws on the same values may differ) and the initial
  value bounds that the base class \<^verbatim>\<open>GraphNode\<close> gives a node. They are parameters.
\<close>

record externals =
  kl_upper_bound :: "real \<Rightarrow> nat \<Rightarrow> real \<Rightarrow> real \<Rightarrow> bool \<Rightarrow> real"
  max_expectation_under_constraint :: "real list \<Rightarrow> real list \<Rightarrow> real \<Rightarrow> real list"
  allocation :: "int \<Rightarrow> real \<Rightarrow> nat \<times> nat"
  random_argmax :: "nat \<Rightarrow> real list \<Rightarrow> error + nat"
  initial_value_upper :: real
  initial_value_lower :: real

text \<open>
  The environment, an external collaborator: the legal actions of a state
  (\<open>None\<close> when the state has no \<^verbatim>\<open>get_available_actions\<close>, the
  \<^verbatim>\<open>AttributeError\<close> branch), the size of its action space, and one transition,
  which yields the observation (as the string \<^verbatim>\<open>str(observation)\<close> that keys every
  dictionary), the reward, the done flag and the next state.
\<close>

record 's env =
  get_available_actions :: "'s \<Rightarrow> action list option"
  state_action_space_n :: "'s \<Rightarrow> nat"
  env_step :: "'s \<Rightarrow> action \<Rightarrow> string \<times> real \<times> bool \<times> 's"

text \<open>
  The attributes of a \<^verbatim>\<open>GraphDecisionNode\<close> other than its children. The children of a
  chance node are decision nodes that are never expanded (the planner expands only the
  nodes of its table), so they are of this type; \<open>parents\<close> holds the table keys of the
  parent nodes (a Python set of node objects).
\<close>

record 's node_core =
  state :: "'s option"
  observation :: string
  value_upper :: real
  value_lower :: real
  parents :: "string list"
  count :: nat
  cumulative_reward :: real
  mu_ucb :: real
  mu_lcb :: real

record 's graph_chance_node =
  parent :: string
  chance_count :: nat
  chance_value_upper :: real
  chance_value_lower :: real
  p_hat :: "real list option"
  p_plus :: "real list option"
  p_minus :: "real list option"
  chance_children :: "(string \<times> 's node_core) list"

record 's graph_decision_node = "'s node_core" +
  children :: "(action \<times> 's graph_chance_node) list"

record 's planner =
  config :: config
  action_space_n :: nat
  nodes :: "string \<rightharpoonup> 's graph_decision_node"
  root :: "'s graph_decision_node"
  logger :: "string list"
  draws :: nat

subsection \<open>GraphDecisionNode\<close>

definition decision_core :: "externals \<Rightarrow> 's option \<Rightarrow> string \<Rightarrow> 's node_core" where
  "decision_core X st obs =
     \<lparr>state = st, observation = obs,
      value_upper = initial_value_upper X, value_lower = initial_value_lower X,
      parents = [], count = 0, cumulative_reward = 0, mu_ucb = 1, mu_lcb = 0\<rparr>"

definition GraphDecisionNode :: "externals \<Rightarrow> 's option \<Rightarrow> string \<Rightarrow> 's graph_decision_node" where
  "GraphDecisionNode X st obs =
     \<lparr>state = st, observation = obs,
      value_upper = initial_value_upper X, value_lower = initial_value_lower X,
      parents = [], count = 0, cumulative_reward = 0, mu_ucb = 1, mu_lcb = 0,
      children = []\<rparr>"

text \<open>\<^verbatim>\<open>compute_reward_ucb\<close>: the result is the node and the messages given to the logger.\<close>

definition compute_reward_ucb ::
  "externals \<Rightarrow> config \<Rightarrow> nat \<Rightarrow> ('s, 'z) node_core_scheme
    \<Rightarrow> error + (('s, 'z) node_core_scheme \<times> string list)" where
  "compute_reward_ucb X cfg actions self =
     (if upper_bound_type cfg = ''kullback-leibler'' then
        (case horizon cfg of
           None \<Rightarrow> Inl (KeyError ''horizon'')
         | Some hor \<Rightarrow>
             (case episodes cfg of
                None \<Rightarrow> Inl (KeyError ''episodes'')
              | Some time \<Rightarrow>
                  (let threshold = upper_bound_threshold cfg hor actions (count self) time in
                   if threshold = 0 then
                     (if count self = 0 then Inl ZeroDivisionError
                      else Inr (self\<lparr>mu_ucb := cumulative_reward self / real (count self),
                                     mu_lcb := cumulative_reward self / real (count self)\<rparr>, []))
                   else
                     Inr (self\<lparr>mu_ucb := kl_upper_bound X (cumulative_reward self) (count self) 0
                                               threshold False,
                                    mu_lcb := kl_upper_bound X (cumulative_reward self) (count self) 0
                                               threshold True\<rparr>, []))))
      else Inr (self, [''Unknown upper-bound type'']))"

definition update ::
  "externals \<Rightarrow> config \<Rightarrow> nat \<Rightarrow> ('s, 'z) node_core_scheme \<Rightarrow> real option
    \<Rightarrow> error + (('s, 'z) node_core_scheme \<times> string list)" where
  "update X cfg actions self reward =
     (let self1 = self\<lparr>count := count self + 1\<rparr> in
      case reward of
        None \<Rightarrow> Inr (self1, [])
      | Some r \<Rightarrow>
          compute_reward_ucb X cfg actions
            (self1\<lparr>cumulative_reward := cumulative_reward self1 + r\<rparr>))"

text \<open>\<^verbatim>\<open>getattr(node, field)\<close> and \<^verbatim>\<open>setattr(node, field, v)\<close> for the two bounds.\<close>

fun getattr :: "('s, 'z) node_core_scheme \<Rightarrow> bound_field \<Rightarrow> real" where
  "getattr n Value_upper = value_upper n"
| "getattr n Value_lower = value_lower n"

fun setattr :: "('s, 'z) node_core_scheme \<Rightarrow> bound_field \<Rightarrow> real \<Rightarrow> ('s, 'z) node_core_scheme" where
  "setattr n Value_upper v = n\<lparr>value_upper := v\<rparr>"
| "setattr n Value_lower v = n\<lparr>value_lower := v\<rparr>"

text \<open>\<^verbatim>\<open>get_field\<close>: the estimate of the representative of the node's observation in
  the planner's table, when there is one.\<close>

definition get_field ::
  "(string \<rightharpoonup> 's graph_decision_node) \<Rightarrow> ('s, 'z) node_core_scheme \<Rightarrow> bound_field \<Rightarrow> real" where
  "get_field tbl self fld =
     (case tbl (observation self) of
        Some representative \<Rightarrow> getattr representative fld
      | None \<Rightarrow> getattr self fld)"

subsection \<open>GraphChanceNode\<close>

text \<open>The decimal digits of a number, for \<^verbatim>\<open>"placeholder_{}".format(i)\<close>.\<close>

fun string_of_nat :: "nat \<Rightarrow> string" where
  "string_of_nat n =
     (if n < 10 then [''0123456789'' ! n]
      else string_of_nat (n div 10) @ [''0123456789'' ! (n mod 10)])"

declare string_of_nat.simps [simp del]

definition placeholder_key :: "nat \<Rightarrow> string" where
  "placeholder_key i = ''placeholder_'' @ string_of_nat i"

text \<open>The constructor: the placeholder children are decision nodes with no state and
  the observation "placeholder"; \<open>parent\<close> is the key of the node that owns the chance node.\<close>

definition GraphChanceNode :: "externals \<Rightarrow> config \<Rightarrow> string \<Rightarrow> 's graph_chance_node" where
  "GraphChanceNode X cfg par =
     \<lparr>parent = par, chance_count = 0,
      chance_value_upper = initial_value_upper X, chance_value_lower = initial_value_lower X,
      p_hat = None, p_plus = None, p_minus = None,
      chance_children =
        foldl (\<lambda>ch i. AList.update (placeholder_key i) (decision_core X None ''placeholder'') ch)
          [] [0..<max_next_states_count cfg]\<rparr>"

definition chance_update :: "'s graph_chance_node \<Rightarrow> 's graph_chance_node" where
  "chance_update self = self\<lparr>chance_count := chance_count self + 1\<rparr>"

definition transition_threshold :: "config \<Rightarrow> nat \<Rightarrow> 's graph_chance_node \<Rightarrow> error + real" where
  "transition_threshold cfg actions self =
     (case horizon cfg of
        None \<Rightarrow> Inl (KeyError ''horizon'')
      | Some hor \<Rightarrow>
          (case episodes cfg of
             None \<Rightarrow> Inl (KeyError ''episodes'')
           | Some time \<Rightarrow>
               Inr (upper_bound_transition_threshold cfg hor actions (chance_count self) time)))"

text \<open>The product \<^verbatim>\<open>p @ u\<close> of two one-dimensional arrays, which numpy refuses when
  their lengths differ.\<close>

definition dot :: "real list \<Rightarrow> real list \<Rightarrow> error + real" where
  "dot p u =
     (if length p = length u then Inr (sum_list (map (\<lambda>(x, y). x * y) (zip p u)))
      else Inl (ValueError ''shapes not aligned''))"

text \<open>\<^verbatim>\<open>GraphChanceNode.backup\<close>: the result is the node as the call leaves it and the
  value returned. \<open>tbl\<close> is the planner's table, read by \<^verbatim>\<open>get_field\<close>.\<close>

definition chance_backup ::
  "externals \<Rightarrow> config \<Rightarrow> nat \<Rightarrow> (string \<rightharpoonup> 's graph_decision_node) \<Rightarrow> 's graph_chance_node
    \<Rightarrow> bound_field \<Rightarrow> error + ('s graph_chance_node \<times> real)" where
  "chance_backup X cfg actions tbl self fld =
     (if chance_count self = 0 then
        Inr (self, if fld = Value_upper then chance_value_upper self else chance_value_lower self)
      else
        (let p_hat1 = map (\<lambda>(k, child). real (count child) / real (chance_count self))
                       (chance_children self);
             self1 = self\<lparr>p_hat := Some p_hat1\<rparr>
         in case transition_threshold cfg actions self1 of
              Inl e \<Rightarrow> Inl e
            | Inr tt \<Rightarrow>
                (let threshold = tt / real (chance_count self1) in
                 case fld of
                   Value_upper \<Rightarrow>
                     (let u_next = map (\<lambda>(k, c). mu_ucb c + gamma cfg * get_field tbl c fld)
                                     (chance_children self1);
                          pp = max_expectation_under_constraint X u_next p_hat1 threshold
                      in case dot pp u_next of
                           Inl e \<Rightarrow> Inl e
                         | Inr v \<Rightarrow> Inr (self1\<lparr>p_plus := Some pp, chance_value_upper := v\<rparr>, v))
                 | Value_lower \<Rightarrow>
                     (let l_next = map (\<lambda>(k, c). mu_lcb c + gamma cfg * get_field tbl c fld)
                                     (chance_children self1);
                          pm = max_expectation_under_constraint X (map uminus l_next) p_hat1 threshold
                      in case dot pm l_next of
                           Inl e \<Rightarrow> Inl e
                         | Inr v \<Rightarrow> Inr (self1\<lparr>p_minus := Some pm, chance_value_lower := v\<rparr>, v)))))"

subsection \<open>The planner's table\<close>

text \<open>
  Modelled from the spec: \<^verbatim>\<open>GraphBasedPlanner.get_node\<close> is inherited from a module that
  is not part of the file. The specification has it fetch or create the canonical decision
  node of an observation: entries are created lazily on the first visit and persist. The
  episode loop of the specification goes on through observations that it meets for the
  first time as the outcome of a transition, where the canonical node is created with no
  state; so a node that has no state takes the state that a later call supplies (a node
  is expanded from its state, and expanding a node with no state is an exception).
\<close>

definition get_node ::
  "externals \<Rightarrow> 's planner \<Rightarrow> string \<Rightarrow> 's option \<Rightarrow> 's planner \<times> 's graph_decision_node" where
  "get_node X P obs st =
     (case nodes P obs of
        Some n \<Rightarrow>
          (if state n = None \<and> st \<noteq> None
           then (let n1 = n\<lparr>state := st\<rparr> in (P\<lparr>nodes := (nodes P)(obs \<mapsto> n1)\<rparr>, n1))
           else (P, n))
      | None \<Rightarrow>
          (let n = GraphDecisionNode X st obs in (P\<lparr>nodes := (nodes P)(obs \<mapsto> n)\<rparr>, n)))"

text \<open>
  \<^verbatim>\<open>GraphChanceNode.get_child\<close>: the result is the planner (whose table the call may
  extend, and where the parent is registered) and the chance node with its children;
  the child returned is the one at the key \<open>obs\<close>. The caller writes the chance node
  back into its owner.
\<close>

definition chance_get_child ::
  "externals \<Rightarrow> 's planner \<Rightarrow> 's graph_chance_node \<Rightarrow> string
    \<Rightarrow> error + ('s planner \<times> 's graph_chance_node)" where
  "chance_get_child X P self obs =
     (if obs \<in> set (map fst (chance_children self)) then Inr (P, self)
      else
        (case find (\<lambda>i. placeholder_key i \<in> set (map fst (chance_children self)))
                [0..<max_next_states_count (config P)] of
           None \<Rightarrow>
             Inl (ValueError ''No more placeholder nodes available'')
         | Some i \<Rightarrow>
             (case map_of (chance_children self) (placeholder_key i) of
                None \<Rightarrow> Inl (KeyError (placeholder_key i))
              | Some node \<Rightarrow>
                  (let self1 = self\<lparr>chance_children :=
                                 AList.update obs (node\<lparr>observation := obs\<rparr>)
                                   (AList.delete (placeholder_key i) (chance_children self))\<rparr>;
                       (P1, canonical) = get_node X P obs None;
                       P2 = P1\<lparr>nodes := (nodes P1)(obs \<mapsto>
                              canonical\<lparr>parents := List.insert (parent self) (parents canonical)\<rparr>)\<rparr>
                   in Inr (P2, self1)))))"

subsection \<open>Backup and the action rules of a decision node\<close>

text \<open>The dictionary comprehension of \<^verbatim>\<open>GraphDecisionNode.backup\<close>: the chance nodes
  are backed up in the order of the children, and the first exception ends it. A chance
  node's backup writes that chance node only and reads only value bounds of decision
  nodes, so every call reads the same table.\<close>

fun backup_items ::
  "externals \<Rightarrow> config \<Rightarrow> nat \<Rightarrow> (string \<rightharpoonup> 's graph_decision_node) \<Rightarrow> bound_field
    \<Rightarrow> (action \<times> 's graph_chance_node) list
    \<Rightarrow> error + ((action \<times> 's graph_chance_node) list \<times> (action \<times> real) list)" where
  "backup_items X cfg actions tbl fld [] = Inr ([], [])"
| "backup_items X cfg actions tbl fld ((a, chance_node) # rest) =
     (case chance_backup X cfg actions tbl chance_node fld of
        Inl e \<Rightarrow> Inl e
      | Inr (chance_node1, v) \<Rightarrow>
          (case backup_items X cfg actions tbl fld rest of
             Inl e \<Rightarrow> Inl e
           | Inr (cs, qs) \<Rightarrow> Inr ((a, chance_node1) # cs, (a, v) # qs)))"

definition backup ::
  "externals \<Rightarrow> 's planner \<Rightarrow> 's graph_decision_node \<Rightarrow> bound_field
    \<Rightarrow> error + ('s graph_decision_node \<times> (action \<times> real) list)" where
  "backup X P self fld =
     (case backup_items X (config P) (action_space_n P) (nodes P) fld (children self) of
        Inl e \<Rightarrow> Inl e
      | Inr (cs, qs) \<Rightarrow> Inr (self\<lparr>children := cs\<rparr>, qs))"

definition actions_list :: "'s env \<Rightarrow> ('s, 'z) node_core_scheme \<Rightarrow> error + action list" where
  "actions_list E self =
     (case state self of
        None \<Rightarrow> Inl (Exception ''The state should be set before expanding a node'')
      | Some s \<Rightarrow>
          (case get_available_actions E s of
             Some acts \<Rightarrow> Inr acts
           | None \<Rightarrow> Inr [0..<state_action_space_n E s]))"

definition expand ::
  "externals \<Rightarrow> 's env \<Rightarrow> 's planner \<Rightarrow> 's graph_decision_node \<Rightarrow> error + 's graph_decision_node" where
  "expand X E P self =
     (case actions_list E self of
        Inl e \<Rightarrow> Inl e
      | Inr acts \<Rightarrow>
          Inr (self\<lparr>children :=
                 foldl (\<lambda>ch a. AList.update a (GraphChanceNode X (config P) (observation self)) ch)
                   (children self) acts\<rparr>))"

text \<open>The last three lines of both rules: the keys and the values of the dictionary,
  \<^verbatim>\<open>random_argmax\<close> on the values, and \<^verbatim>\<open>actions[index]\<close>.\<close>

definition choose_action :: "externals \<Rightarrow> nat \<Rightarrow> (action \<times> real) list \<Rightarrow> error + action" where
  "choose_action X draw q_values =
     (let actions = map fst q_values in
      case random_argmax X draw (map snd q_values) of
        Inl e \<Rightarrow> Inl e
      | Inr index \<Rightarrow> if index < length actions then Inr (actions ! index) else Inl IndexError)"

definition sampling_rule ::
  "externals \<Rightarrow> 's env \<Rightarrow> 's planner \<Rightarrow> 's graph_decision_node
    \<Rightarrow> error + ('s graph_decision_node \<times> action)" where
  "sampling_rule X E P self =
     (case (if children self = [] then expand X E P self else Inr self) of
        Inl e \<Rightarrow> Inl e
      | Inr self1 \<Rightarrow>
          (case backup X P self1 Value_upper of
             Inl e \<Rightarrow> Inl e
           | Inr (self2, q_values_upper) \<Rightarrow>
               (case choose_action X (draws P) q_values_upper of
                  Inl e \<Rightarrow> Inl e
                | Inr a \<Rightarrow> Inr (self2, a))))"

definition selection_rule ::
  "externals \<Rightarrow> 's planner \<Rightarrow> 's graph_decision_node
    \<Rightarrow> error + ('s graph_decision_node \<times> action)" where
  "selection_rule X P self =
     (case backup X P self Value_lower of
        Inl e \<Rightarrow> Inl e
      | Inr (self2, q_values_lower) \<Rightarrow>
          (case choose_action X (draws P) q_values_lower of
             Inl e \<Rightarrow> Inl e
           | Inr a \<Rightarrow> Inr (self2, a)))"

definition get_child :: "'s graph_decision_node \<Rightarrow> action \<Rightarrow> error + 's graph_chance_node" where
  "get_child self a =
     (case map_of (children self) a of
        None \<Rightarrow> Inl (KeyError ''action'')
      | Some chance_node \<Rightarrow> Inr chance_node)"

subsection \<open>Partial value iteration\<close>

text \<open>
  One pass of the inner loop over the two fields, for the node at the key \<open>k\<close> of the
  table: the backup of the node, \<^verbatim>\<open>np.amax\<close> of the values (which raises on an empty
  list), the running \<open>delta\<close>, and the assignment of the bound.
\<close>

definition pvi_field ::
  "externals \<Rightarrow> 's planner \<Rightarrow> string \<Rightarrow> bound_field \<Rightarrow> real \<Rightarrow> error + ('s planner \<times> real)" where
  "pvi_field X P k fld delta =
     (case nodes P k of
        None \<Rightarrow> Inl (KeyError k)
      | Some node \<Rightarrow>
          (case backup X P node fld of
             Inl e \<Rightarrow> Inl e
           | Inr (node1, action_value) \<Rightarrow>
               if action_value = [] then Inl (ValueError ''zero-size array to reduction operation'')
               else
                 (let state_value_bound = Max (set (map snd action_value));
                      delta1 = max delta \<bar>getattr node1 fld - state_value_bound\<bar>
                  in Inr (P\<lparr>nodes := (nodes P)(k \<mapsto> setattr node1 fld state_value_bound)\<rparr>,
                          delta1))))"

text \<open>The body of the while loop: the node popped is the one at the key \<open>k\<close>, \<open>rest\<close> is
  the queue after the pop; the result is the planner and the queue after the body.\<close>

definition pvi_iteration ::
  "externals \<Rightarrow> 's planner \<Rightarrow> string \<Rightarrow> string list \<Rightarrow> error + ('s planner \<times> string list)" where
  "pvi_iteration X P k rest =
     (case pvi_field X P k Value_lower 0 of
        Inl e \<Rightarrow> Inl e
      | Inr (P1, delta1) \<Rightarrow>
          (case pvi_field X P1 k Value_upper delta1 of
             Inl e \<Rightarrow> Inl e
           | Inr (P2, delta2) \<Rightarrow>
               if delta2 > accuracy (config P2)
               then Inr (P2, rest @ (case nodes P2 k of None \<Rightarrow> [] | Some node \<Rightarrow> parents node))
               else Inr (P2, rest)))"

text \<open>The while loop. It need not end: \<open>None\<close> is the run that never returns.\<close>

partial_function (option) pvi_loop ::
  "externals \<Rightarrow> 's planner \<Rightarrow> string list \<Rightarrow> (error + 's planner) option" where
  "pvi_loop X P queue =
     (case queue of
        [] \<Rightarrow> Some (Inr P)
      | k # rest \<Rightarrow>
          (case pvi_iteration X P k rest of
             Inl e \<Rightarrow> Some (Inl e)
           | Inr (P1, queue1) \<Rightarrow> pvi_loop X P1 queue1))"

definition partial_value_iteration ::
  "externals \<Rightarrow> 's planner \<Rightarrow> string \<Rightarrow> string list option \<Rightarrow> (error + 's planner) option" where
  "partial_value_iteration X P self queue =
     pvi_loop X P (case queue of None \<Rightarrow> [self] | Some q \<Rightarrow> q)"

subsection \<open>StochasticGraphBasedPlanner\<close>

text \<open>
  The body of the loop of \<^verbatim>\<open>run\<close>, on the planner, the environment's state, the
  current observation and the update queue (the keys of the nodes in it).
  \<^verbatim>\<open>self.step\<close> is the environment's transition.
\<close>

definition run_step ::
  "externals \<Rightarrow> 's env \<Rightarrow> 's planner \<times> 's \<times> string \<times> string list
    \<Rightarrow> error + ('s planner \<times> 's \<times> string \<times> string list)" where
  "run_step X E st =
     (case st of (P, s, obs, update_queue) \<Rightarrow>
       (case get_node X P obs (Some s) of (P1, decision_node) \<Rightarrow>
         (case sampling_rule X E P1 decision_node of
            Inl e \<Rightarrow> Inl e
          | Inr (decision_node1, act) \<Rightarrow>
              (let P2 = P1\<lparr>nodes := (nodes P1)(obs \<mapsto> decision_node1), draws := draws P1 + 1\<rparr> in
               case get_child decision_node1 act of
                 Inl e \<Rightarrow> Inl e
               | Inr chance_node \<Rightarrow>
                   (case env_step E s act of (obs1, reward, done, s1) \<Rightarrow>
                     (case chance_get_child X P2 chance_node obs1 of
                        Inl e \<Rightarrow> Inl e
                      | Inr (P3, chance_node1) \<Rightarrow>
                          (case nodes P3 obs of
                             None \<Rightarrow> Inl (KeyError obs)
                           | Some decision_node2 \<Rightarrow>
                               (case update X (config P3) (action_space_n P3) decision_node2 None of
                                  Inl e \<Rightarrow> Inl e
                                | Inr (decision_node3, msgs1) \<Rightarrow>
                                    (let chance_node2 = chance_update chance_node1 in
                                     case map_of (chance_children chance_node2) obs1 of
                                       None \<Rightarrow> Inl (KeyError obs1)
                                     | Some next_decision_node \<Rightarrow>
                                         (case update X (config P3) (action_space_n P3)
                                                 next_decision_node (Some reward) of
                                            Inl e \<Rightarrow> Inl e
                                          | Inr (next_decision_node1, msgs2) \<Rightarrow>
                                              (let chance_node3 = chance_node2\<lparr>chance_children :=
                                                     AList.update obs1 next_decision_node1
                                                       (chance_children chance_node2)\<rparr>;
                                                   decision_node4 = decision_node3\<lparr>children :=
                                                     AList.update act chance_node3
                                                       (children decision_node3)\<rparr>;
                                                   P4 = P3\<lparr>nodes := (nodes P3)(obs \<mapsto> decision_node4),
                                                           logger := logger P3 @ msgs1 @ msgs2\<rparr>
                                               in Inr (P4, s1, obs1,
                                                       if obs \<in> set update_queue then update_queue
                                                       else update_queue @ [obs]))))))))))))"

text \<open>\<^verbatim>\<open>for h in range(horizon)\<close>: the body, \<open>h\<close> times, until an exception.\<close>

primrec run_loop ::
  "externals \<Rightarrow> 's env \<Rightarrow> nat \<Rightarrow> 's planner \<times> 's \<times> string \<times> string list
    \<Rightarrow> error + ('s planner \<times> 's \<times> string \<times> string list)" where
  "run_loop X E 0 st = Inr st"
| "run_loop X E (Suc h) st =
     (case run_step X E st of
        Inl e \<Rightarrow> Inl e
      | Inr st1 \<Rightarrow> run_loop X E h st1)"

definition reset :: "externals \<Rightarrow> 's planner \<Rightarrow> 's planner" where
  "reset X P =
     (let P1 = P\<lparr>root := GraphDecisionNode X None ''None''\<rparr> in
      if horizon (config P1) = None then
        (let budget1 = max (int (action_space_n P1)) (budget (config P1));
             (ep, hor) = allocation X budget1 (gamma (config P1))
         in P1\<lparr>config := (config P1)\<lparr>episodes := Some ep, horizon := Some hor\<rparr>\<rparr>)
      else P1)"

subsection \<open>The invariant of the visit counts\<close>

text \<open>A chance node's children have distinct keys (they are the keys of a dictionary),
  and their visit counts add up to the visit count of the chance node.\<close>

definition chance_counts_ok :: "'s graph_chance_node \<Rightarrow> bool" where
  "chance_counts_ok cn \<longleftrightarrow>
     distinct (map fst (chance_children cn)) \<and>
     sum_list (map (\<lambda>(k, c). count c) (chance_children cn)) = chance_count cn"

definition counts_ok :: "'s planner \<Rightarrow> bool" where
  "counts_ok P \<longleftrightarrow>
     (\<forall>k n. nodes P k = Some n \<longrightarrow> (\<forall>(a, cn) \<in> set (children n). chance_counts_ok cn))"

subsection \<open>Example values\<close>

definition example_externals :: externals where
  "example_externals =
     \<lparr>kl_upper_bound = (\<lambda>s n r t lower. if lower then 0 else 1),
      max_expectation_under_constraint = (\<lambda>v p t. p),
      allocation = (\<lambda>b g. (nat b, 1)),
      random_argmax = (\<lambda>d vs. if vs = [] then Inl (ValueError ''empty'') else Inr 0),
      initial_value_upper = 1,
      initial_value_lower = 0\<rparr>"

definition example_config :: config where
  "example_config =
     \<lparr>horizon = Some 2, episodes = Some 3, budget = 6, gamma = 1 / 2, accuracy = 0,
      max_next_states_count = 2, upper_bound_type = ''kullback-leibler'',
      upper_bound_threshold = (\<lambda>hor actions cnt time. 0),
      upper_bound_transition_threshold = (\<lambda>hor actions cnt time. 0)\<rparr>"

text \<open>An environment with one state, two actions and the reward 1.\<close>

definition example_env :: "unit env" where
  "example_env =
     \<lparr>get_available_actions = (\<lambda>s. None),
      state_action_space_n = (\<lambda>s. 2),
      env_step = (\<lambda>s a. (''s'', 1, False, s))\<rparr>"

definition example_planner :: "unit planner" where
  "example_planner =
     \<lparr>config = example_config, action_space_n = 2, nodes = Map.empty,
      root = GraphDecisionNode example_externals None ''None'',
      logger = [], draws = 0\<rparr>"

definition example_node :: "unit node_core" where
  "example_node = (decision_core example_externals None ''s'')\<lparr>count := 2, cumulative_reward := 1\<rparr>"

text \<open>A decision node with two actions, whose chance nodes were never visited and have
  the upper bounds 1 and 3.\<close>

definition example_decision_node :: "unit graph_decision_node" where
  "example_decision_node =
     (GraphDecisionNode example_externals (Some ()) ''s'')
       \<lparr>children :=
          [(0, (GraphChanceNode example_externals example_config ''s'')\<lparr>chance_value_upper := 1\<rparr>),
           (1, (GraphChanceNode example_externals example_config ''s'')\<lparr>chance_value_upper := 3\<rparr>)]\<rparr>"


text \<open>A planner whose table has the example node at the key "s", its own parent.\<close>

definition example_table_planner :: "unit planner" where
  "example_table_planner =
     example_planner\<lparr>nodes := [''s'' \<mapsto> example_decision_node\<lparr>parents := [''s'']\<rparr>]\<rparr>"

definition example_table_planner_after :: "unit planner" where
  "example_table_planner_after =
     example_planner\<lparr>nodes := [''s'' \<mapsto> example_decision_node\<lparr>parents := [''s''], value_upper := 3\<rparr>]\<rparr>"

text \<open>An environment whose only observation is the string "placeholder_1".\<close>

definition example_env_placeholder :: "unit env" where
  "example_env_placeholder =
     \<lparr>get_available_actions = (\<lambda>s. None),
      state_action_space_n = (\<lambda>s. 2),
      env_step = (\<lambda>s a. (''placeholder_1'', 1, False, s))\<rparr>"

text \<open>An environment with two states that every action exchanges: the state
  \<open>False\<close> is observed as "s", the state \<open>True\<close> as "t", and the reward is 1 on the way
  to "t".\<close>

definition example_env_two :: "bool env" where
  "example_env_two =
     \<lparr>get_available_actions = (\<lambda>s. None),
      state_action_space_n = (\<lambda>s. 2),
      env_step = (\<lambda>s a. if s then (''s'', 0, False, False) else (''t'', 1, False, True))\<rparr>"

definition example_planner_two :: "bool planner" where
  "example_planner_two =
     \<lparr>config = example_config, action_space_n = 2, nodes = Map.empty,
      root = GraphDecisionNode example_externals None ''None'',
      logger = [], draws = 0\<rparr>"

section \<open>Properties\<close>

subsection \<open>Reward bounds\<close>

text \<open>
  C1, as the code has it. When \<^verbatim>\<open>update\<close> is given a reward and the configured scheme
  is not "kullback-leibler", the call returns normally: the visit count and the
  cumulative reward are updated, \<open>mu_ucb\<close> and \<open>mu_lcb\<close> keep their values, and the only
  report is the message "Unknown upper-bound type" given to the logger.
\<close>

theorem C1_unknown_scheme_is_logged:
  assumes "upper_bound_type cfg \<noteq> ''kullback-leibler''"
  shows "update X cfg actions self (Some r) =
           Inr (self\<lparr>count := count self + 1, cumulative_reward := cumulative_reward self + r\<rparr>,
                [''Unknown upper-bound type''])"
  using assms by (simp add: update_def compute_reward_ucb_def)

text \<open>The theorem at the scheme "hoeffding", on a node visited twice.\<close>

theorem C1_unknown_scheme_witness:
  "update example_externals (example_config\<lparr>upper_bound_type := ''hoeffding''\<rparr>) 2 example_node (Some 1) =
     Inr (example_node\<lparr>count := 3, cumulative_reward := 2\<rparr>, [''Unknown upper-bound type''])"
  using C1_unknown_scheme_is_logged [of "example_config\<lparr>upper_bound_type := ''hoeffding''\<rparr>"
      example_externals 2 example_node 1]
  by (simp add: example_config_def example_node_def decision_core_def)

text \<open>
  C1 as the claim states it fails: with the scheme "hoeffding" the caller of
  \<^verbatim>\<open>update\<close> gets a normal return and no exception, and the bounds of the node stay
  at 1 and 0.
\<close>

theorem C1_counterexample:
  "update example_externals (example_config\<lparr>upper_bound_type := ''hoeffding''\<rparr>) 2 example_node (Some 1) =
     Inr (example_node\<lparr>count := 3, cumulative_reward := 2\<rparr>, [''Unknown upper-bound type''])
   \<and> mu_ucb (example_node\<lparr>count := 3, cumulative_reward := 2\<rparr>) = 1
   \<and> mu_lcb (example_node\<lparr>count := 3, cumulative_reward := 2\<rparr>) = 0"
  by (simp add: update_def compute_reward_ucb_def example_config_def example_node_def decision_core_def)

text \<open>
  C5. For a decision node whose visit count is positive, when the configured scheme is
  "kullback-leibler" and the evaluated threshold is 0, \<^verbatim>\<open>compute_reward_ucb\<close> sets
  both \<open>mu_ucb\<close> and \<open>mu_lcb\<close> to \<open>cumulative_reward / count\<close>, changes nothing else and
  logs nothing.
\<close>

theorem C5_zero_threshold_collapse:
  assumes "upper_bound_type cfg = ''kullback-leibler''"
    and "horizon cfg = Some hor" and "episodes cfg = Some time"
    and "upper_bound_threshold cfg hor actions (count self) time = 0"
    and "0 < count self"
  shows "compute_reward_ucb X cfg actions self =
           Inr (self\<lparr>mu_ucb := cumulative_reward self / real (count self),
                       mu_lcb := cumulative_reward self / real (count self)\<rparr>, [])"
  using assms by (simp add: compute_reward_ucb_def)

text \<open>The theorem on a node with two visits and the cumulative reward 1: both bounds
  become 1/2.\<close>

theorem C5_zero_threshold_witness:
  "compute_reward_ucb example_externals example_config 2 example_node =
     Inr (example_node\<lparr>mu_ucb := 1 / 2, mu_lcb := 1 / 2\<rparr>, [])"
  using C5_zero_threshold_collapse [of example_config 2 3 2 example_node example_externals]
  by (simp add: example_config_def example_node_def decision_core_def)

subsection \<open>The backup of a chance node\<close>

text \<open>
  C7. The backup of a chance node whose visit count is 0 returns the node's own
  \<open>value_upper\<close> or \<open>value_lower\<close>, as the field asks, and leaves the node as it is.
\<close>

theorem C7_unvisited_chance_backup:
  assumes "chance_count self = 0"
  shows "chance_backup X cfg actions tbl self fld =
           Inr (self, case fld of Value_upper \<Rightarrow> chance_value_upper self
                               | Value_lower \<Rightarrow> chance_value_lower self)"
  using assms by (cases fld) (simp_all add: chance_backup_def)

text \<open>The theorem on a chance node as its constructor leaves it.\<close>

theorem C7_unvisited_witness:
  "chance_backup example_externals example_config 2 Map.empty
     (GraphChanceNode example_externals example_config ''s'') Value_upper =
   Inr (GraphChanceNode example_externals example_config ''s'', 1)"
  using C7_unvisited_chance_backup [of "GraphChanceNode example_externals example_config ''s''"
      example_externals example_config 2 Map.empty Value_upper]
  by (simp add: GraphChanceNode_def example_externals_def)

subsection \<open>The backup of a decision node\<close>

lemma backup_items_all_ok:
  assumes "\<forall>(a, cn) \<in> set cs. \<exists>r. chance_backup X cfg n tbl cn fld = Inr r"
  shows "backup_items X cfg n tbl fld cs =
           Inr (map (\<lambda>(a, cn). (a, fst (projr (chance_backup X cfg n tbl cn fld)))) cs,
                map (\<lambda>(a, cn). (a, snd (projr (chance_backup X cfg n tbl cn fld)))) cs)"
  using assms by (induction cs) (auto split: sum.splits prod.splits)

lemma example_backup_upper:
  "backup example_externals example_planner example_decision_node Value_upper =
     Inr (example_decision_node, [(0, 1), (1, 3)])"
  by (simp add: backup_def example_decision_node_def GraphChanceNode_def chance_backup_def
      GraphDecisionNode_def)

text \<open>
  C3, as the code has it. When the backups of its chance nodes raise no exception,
  \<^verbatim>\<open>GraphDecisionNode.backup\<close> returns the dictionary that maps every action of the
  node's children, in their order, to the value that the backup of its chance node
  returns, and leaves every chance node as that backup leaves it. It takes no maximum:
  \<^verbatim>\<open>partial_value_iteration\<close> and the two action rules do that on the values.
\<close>

theorem C3_backup_is_per_action:
  assumes "\<forall>(a, cn) \<in> set (children self).
             \<exists>r. chance_backup X (config P) (action_space_n P) (nodes P) cn fld = Inr r"
  shows "backup X P self fld =
           Inr (self\<lparr>children :=
                  map (\<lambda>(a, cn). (a, fst (projr (chance_backup X (config P) (action_space_n P) (nodes P) cn fld))))
                    (children self)\<rparr>,
                map (\<lambda>(a, cn). (a, snd (projr (chance_backup X (config P) (action_space_n P) (nodes P) cn fld))))
                  (children self))"
  using backup_items_all_ok [OF assms] by (simp add: backup_def)

text \<open>The theorem on the example node: the dictionary has the two entries 1 and 3.\<close>

theorem C3_backup_witness:
  "backup example_externals example_planner example_decision_node Value_upper =
     Inr (example_decision_node, [(0, 1), (1, 3)])"
  using C3_backup_is_per_action [of example_decision_node example_externals example_planner Value_upper]
  by (simp add: example_decision_node_def GraphChanceNode_def chance_backup_def
      GraphDecisionNode_def)

text \<open>
  C3 as the claim states it fails: on the example node the values returned are the two
  values 1 and 3, one for each action, and not the single value 3 that is their maximum.
\<close>

theorem C3_counterexample:
  "(case backup example_externals example_planner example_decision_node Value_upper of
      Inl e \<Rightarrow> False
    | Inr (n, qs) \<Rightarrow> qs = [(0, 1), (1, 3)] \<and> map snd qs \<noteq> [Max (set (map snd qs))])"
  by (simp add: example_backup_upper)

subsection \<open>Reset\<close>

text \<open>
  C10. When the configuration has no horizon, \<^verbatim>\<open>reset\<close> sets the episodes and the
  horizon to what the allocation function gives for the discount factor and the larger
  of the configured budget and the size of the action space, a budget that is never
  smaller than the number of actions.
\<close>

theorem C10_reset_budget:
  assumes "horizon (config P) = None"
  shows "\<exists>b. b = max (int (action_space_n P)) (budget (config P)) \<and> int (action_space_n P) \<le> b \<and>
           config (reset X P) =
             (config P)\<lparr>episodes := Some (fst (allocation X b (gamma (config P)))),
                         horizon := Some (snd (allocation X b (gamma (config P))))\<rparr>"
  using assms by (simp add: reset_def Let_def split: prod.splits)

text \<open>The theorem on a planner with two actions and the budget 1: the allocation is
  asked for the budget 2.\<close>

theorem C10_reset_witness:
  "config (reset example_externals
             (example_planner\<lparr>config := example_config\<lparr>horizon := None, budget := 1\<rparr>\<rparr>)) =
     example_config\<lparr>horizon := Some 1, budget := 1, episodes := Some 2\<rparr>"
  using C10_reset_budget [of "example_planner\<lparr>config := example_config\<lparr>horizon := None, budget := 1\<rparr>\<rparr>"
      example_externals]
  by (simp add: example_planner_def example_config_def example_externals_def)

subsection \<open>The action rules\<close>

lemma choose_action_empty: "\<exists>e. choose_action X d [] = Inl e"
  by (simp add: choose_action_def split: sum.splits)

lemma upt_2: "[0..<2] = [0, Suc 0]"
  by (simp add: upt_rec)

lemma example_sampling:
  "(case sampling_rule example_externals example_env example_planner
           (GraphDecisionNode example_externals (Some ()) ''s'') of
      Inl e \<Rightarrow> False
    | Inr (n, a) \<Rightarrow> map fst (children n) = [0, 1] \<and> a = 0)"
  by (simp add: sampling_rule_def expand_def actions_list_def example_env_def GraphDecisionNode_def
      backup_def upt_2 GraphChanceNode_def chance_backup_def choose_action_def example_externals_def)

lemma example_selection:
  "selection_rule example_externals example_planner
     (GraphDecisionNode example_externals (Some ()) ''s'') = Inl (ValueError ''empty'')"
  by (simp add: selection_rule_def GraphDecisionNode_def
      backup_def choose_action_def example_externals_def)

lemma example_selection_children:
  "selection_rule example_externals example_planner example_decision_node =
     Inr (example_decision_node, 0)"
  by (simp add: selection_rule_def example_decision_node_def GraphDecisionNode_def
      backup_def GraphChanceNode_def chance_backup_def choose_action_def example_externals_def)

lemma example_sampling_children:
  "sampling_rule example_externals example_env example_planner example_decision_node =
     Inr (example_decision_node, 0)"
  by (simp add: sampling_rule_def example_decision_node_def GraphDecisionNode_def
      backup_def GraphChanceNode_def chance_backup_def choose_action_def example_externals_def)

text \<open>
  C4, as the code has it. On a decision node that has children, the conservative
  selection rule does what the optimistic sampling rule does, with the backup of
  \<open>value_lower\<close> in the place of the backup of \<open>value_upper\<close>: the backup, then the random
  arg-max over its values. On a node with no children the selection rule does not expand
  the node: it creates no chance node and ends in an exception, the arg-max being taken
  over no value.
\<close>

theorem C4_selection_rule_no_expansion:
  shows "(children self \<noteq> [] \<longrightarrow>
            sampling_rule X E P self =
              (case backup X P self Value_upper of
                 Inl e \<Rightarrow> Inl e
               | Inr (n, q) \<Rightarrow>
                   (case choose_action X (draws P) q of Inl e \<Rightarrow> Inl e | Inr a \<Rightarrow> Inr (n, a))) \<and>
            selection_rule X P self =
              (case backup X P self Value_lower of
                 Inl e \<Rightarrow> Inl e
               | Inr (n, q) \<Rightarrow>
                   (case choose_action X (draws P) q of Inl e \<Rightarrow> Inl e | Inr a \<Rightarrow> Inr (n, a))))
       \<and> (children self = [] \<longrightarrow> (\<exists>e. selection_rule X P self = Inl e))"
proof (intro conjI impI)
  assume "children self = []"
  then have "backup X P self Value_lower = Inr (self, [])"
    by (simp add: backup_def)
  with choose_action_empty [of X "draws P"] show "\<exists>e. selection_rule X P self = Inl e"
    by (auto simp: selection_rule_def)
qed (simp_all add: sampling_rule_def selection_rule_def)

text \<open>The theorem on the example node, which has two children, and on a fresh node,
  which has none.\<close>

theorem C4_selection_rule_witness:
  "selection_rule example_externals example_planner example_decision_node =
     Inr (example_decision_node, 0)
   \<and> sampling_rule example_externals example_env example_planner example_decision_node =
     Inr (example_decision_node, 0)
   \<and> selection_rule example_externals example_planner
        (GraphDecisionNode example_externals (Some ()) ''s'') = Inl (ValueError ''empty'')"
  using C4_selection_rule_no_expansion [of example_decision_node example_externals example_env example_planner]
    C4_selection_rule_no_expansion [of "GraphDecisionNode example_externals (Some ()) ''s''"
      example_externals example_env example_planner]
  by (simp add: example_selection_children example_sampling_children example_selection)

text \<open>
  C4 as the claim states it fails: on a fresh node whose state has two actions, the
  sampling rule expands the node (it returns the node with a chance node for each of the
  actions 0 and 1, and an action), and the selection rule raises an exception.
\<close>

theorem C4_counterexample:
  "(case sampling_rule example_externals example_env example_planner
           (GraphDecisionNode example_externals (Some ()) ''s'') of
      Inl e \<Rightarrow> False
    | Inr (n, a) \<Rightarrow> map fst (children n) = [0, 1] \<and> a = 0)
   \<and> selection_rule example_externals example_planner
        (GraphDecisionNode example_externals (Some ()) ''s'') = Inl (ValueError ''empty'')"
  using example_sampling example_selection by simp

subsection \<open>The backup of a visited chance node\<close>




subsection \<open>The children of a chance node\<close>

lemma placeholder_key_0: "placeholder_key 0 = ''placeholder_0''"
  by (simp add: placeholder_key_def string_of_nat.simps)

lemma placeholder_key_1: "placeholder_key (Suc 0) = ''placeholder_1''"
  by (simp add: placeholder_key_def string_of_nat.simps)

lemma example_chance_children:
  "chance_children (GraphChanceNode example_externals example_config par) =
     [(''placeholder_0'', decision_core example_externals None ''placeholder''),
      (''placeholder_1'', decision_core example_externals None ''placeholder'')]"
  by (simp add: GraphChanceNode_def example_config_def upt_2 placeholder_key_0 placeholder_key_1)

text \<open>An observation that is a key of the children gets its child, and nothing changes.\<close>

lemma chance_get_child_known:
  assumes "obs \<in> set (map fst (chance_children self))"
  shows "chance_get_child X P self obs = Inr (P, self)"
  using assms by (simp add: chance_get_child_def)

text \<open>An observation that is no key of the children raises the \<^verbatim>\<open>ValueError\<close> when no
  key of the children is a placeholder key.\<close>

lemma chance_get_child_full:
  assumes "obs \<notin> set (map fst (chance_children self))"
    and "\<forall>i < max_next_states_count (config P).
           placeholder_key i \<notin> set (map fst (chance_children self))"
  shows "\<exists>msg. chance_get_child X P self obs = Inl (ValueError msg)"
proof -
  have "find (\<lambda>i. placeholder_key i \<in> set (map fst (chance_children self)))
          [0..<max_next_states_count (config P)] = None"
    using assms(2) by (simp add: find_None_iff)
  then show ?thesis using assms(1) by (simp add: chance_get_child_def)
qed

text \<open>A successful call keeps every child whose key is not a placeholder key.\<close>

lemma chance_get_child_keeps:
  assumes "chance_get_child X P cn obs = Inr (P', cn')"
    and "map_of (chance_children cn) k = Some c"
    and "\<forall>i < max_next_states_count (config P). k \<noteq> placeholder_key i"
  shows "map_of (chance_children cn') k = Some c"
proof (cases "obs \<in> set (map fst (chance_children cn))")
  case True
  with assms(1,2) show ?thesis by (simp add: chance_get_child_def)
next
  case False
  with assms(1) obtain i node where
    f: "find (\<lambda>i. placeholder_key i \<in> set (map fst (chance_children cn)))
          [0..<max_next_states_count (config P)] = Some i" and
    c: "cn' = cn\<lparr>chance_children :=
                AList.update obs (node\<lparr>observation := obs\<rparr>)
                  (AList.delete (placeholder_key i) (chance_children cn))\<rparr>"
    by (auto simp: chance_get_child_def Let_def split: option.splits prod.splits)
  from f have "i < max_next_states_count (config P)"
    by (auto simp: find_Some_iff)
  with assms(3) have k1: "k \<noteq> placeholder_key i" by simp
  from assms(2) have "k \<in> set (map fst (chance_children cn))"
    by (auto dest: map_of_SomeD intro: rev_image_eqI)
  with False have k2: "k \<noteq> obs" by auto
  from c k1 k2 assms(2) show ?thesis
    by (simp add: update_conv' delete_conv')
qed

text \<open>
  C2 fails on the code when the string of an observation is itself a placeholder key.
  A chance node with two placeholders is asked for the observations "a", "placeholder_0"
  and "b", in this order. After the second call both slots are realized, under the keys
  "a" and "placeholder_0". The third call, for a third distinct observation, raises no
  exception: it takes the child realized for "placeholder_0" as a free placeholder and
  gives it to "b", so that the children are now those of "a" and "b".
\<close>

theorem C2_placeholder_key_collision:
  "(case chance_get_child example_externals example_planner
           (GraphChanceNode example_externals example_config ''s'') ''a'' of
      Inl e \<Rightarrow> False
    | Inr (P1, cn1) \<Rightarrow>
        (case chance_get_child example_externals P1 cn1 ''placeholder_0'' of
           Inl e \<Rightarrow> False
         | Inr (P2, cn2) \<Rightarrow>
             map (\<lambda>(k, c). (k, observation c)) (chance_children cn2) =
               [(''a'', ''a''), (''placeholder_0'', ''placeholder_0'')] \<and>
             (case chance_get_child example_externals P2 cn2 ''b'' of
                Inl e \<Rightarrow> False
              | Inr (P3, cn3) \<Rightarrow>
                  map (\<lambda>(k, c). (k, observation c)) (chance_children cn3) =
                    [(''a'', ''a''), (''b'', ''b'')])))"
proof -
  have m: "max_next_states_count example_config = 2"
    by (simp add: example_config_def)
  show ?thesis
    by (simp add: chance_get_child_def example_chance_children example_planner_def m
        upt_2 placeholder_key_0 placeholder_key_1 get_node_def decision_core_def Let_def)
qed

subsection \<open>Partial value iteration\<close>

lemma backup_core:
  assumes "backup X P self fld = Inr (n, q)"
  shows "\<exists>cs. n = self\<lparr>children := cs\<rparr>"
  using assms by (auto simp: backup_def split: sum.splits prod.splits)

lemma pvi_field_Inr:
  assumes "pvi_field X P k fld d = Inr (P1, d1)" and "nodes P k = Some node"
  shows "\<exists>n1 q. backup X P node fld = Inr (n1, q) \<and> q \<noteq> [] \<and>
           P1 = P\<lparr>nodes := (nodes P)(k \<mapsto> setattr n1 fld (Max (set (map snd q))))\<rparr> \<and>
           d1 = max d \<bar>getattr node fld - Max (set (map snd q))\<bar>"
proof -
  from assms obtain n1 q where b: "backup X P node fld = Inr (n1, q)"
    by (auto simp: pvi_field_def split: sum.splits prod.splits)
  from backup_core [OF b] have g: "getattr n1 fld = getattr node fld"
    by (cases fld) auto
  from assms b g show ?thesis
    by (auto simp: pvi_field_def Let_def split: if_splits)
qed

text \<open>
  C8. When the body of the loop of \<^verbatim>\<open>partial_value_iteration\<close> runs without an
  exception on the node popped from the queue: \<open>value_lower\<close> of the node is set to the
  maximum of the values of its backup of \<open>value_lower\<close>, then \<open>value_upper\<close> to the
  maximum of the values of its backup of \<open>value_upper\<close>; all the parents of the node are
  appended to the queue when one of the two bounds has moved by more than the configured
  accuracy, and the queue is left as it is otherwise; the loop goes on with that queue,
  and it returns the planner when the queue is empty.
\<close>

theorem C8_partial_value_iteration:
  assumes "pvi_iteration X P k rest = Inr (P', queue')" and "nodes P k = Some node"
  shows "\<exists>n1 ql n2 qu node'.
           backup X P node Value_lower = Inr (n1, ql) \<and>
           backup X (P\<lparr>nodes := (nodes P)(k \<mapsto> n1\<lparr>value_lower := Max (set (map snd ql))\<rparr>)\<rparr>)
             (n1\<lparr>value_lower := Max (set (map snd ql))\<rparr>) Value_upper = Inr (n2, qu) \<and>
           nodes P' k = Some node' \<and>
           value_lower node' = Max (set (map snd ql)) \<and>
           value_upper node' = Max (set (map snd qu)) \<and>
           queue' =
             (if accuracy (config P) < \<bar>value_lower node - value_lower node'\<bar>
                 \<or> accuracy (config P) < \<bar>value_upper node - value_upper node'\<bar>
              then rest @ parents node else rest) \<and>
           pvi_loop X P (k # rest) = pvi_loop X P' queue' \<and>
           pvi_loop X P' [] = Some (Inr P')"
proof -
  from assms(1) obtain P1 d1 where f1: "pvi_field X P k Value_lower 0 = Inr (P1, d1)"
    by (auto simp: pvi_iteration_def split: sum.splits)
  from assms(1) f1 obtain d2 where f2: "pvi_field X P1 k Value_upper d1 = Inr (P', d2)"
    and q: "queue' = (if d2 > accuracy (config P')
                      then rest @ (case nodes P' k of None \<Rightarrow> [] | Some n \<Rightarrow> parents n) else rest)"
    by (auto simp: pvi_iteration_def split: sum.splits if_splits)
  from pvi_field_Inr [OF f1 assms(2)] obtain n1 ql where
    b1: "backup X P node Value_lower = Inr (n1, ql)" and
    P1: "P1 = P\<lparr>nodes := (nodes P)(k \<mapsto> n1\<lparr>value_lower := Max (set (map snd ql))\<rparr>)\<rparr>" and
    d1: "d1 = max 0 \<bar>value_lower node - Max (set (map snd ql))\<bar>"
    by auto
  from P1 have l1: "nodes P1 k = Some (n1\<lparr>value_lower := Max (set (map snd ql))\<rparr>)"
    by simp
  from pvi_field_Inr [OF f2 l1] obtain n2 qu where
    b2: "backup X P1 (n1\<lparr>value_lower := Max (set (map snd ql))\<rparr>) Value_upper = Inr (n2, qu)" and
    P2: "P' = P1\<lparr>nodes := (nodes P1)(k \<mapsto> n2\<lparr>value_upper := Max (set (map snd qu))\<rparr>)\<rparr>" and
    d2: "d2 = max d1 \<bar>value_upper n1 - Max (set (map snd qu))\<bar>"
    by auto
  from backup_core [OF b1] obtain cs1 where n1: "n1 = node\<lparr>children := cs1\<rparr>" ..
  from backup_core [OF b2] obtain cs2 where
    n2: "n2 = n1\<lparr>value_lower := Max (set (map snd ql)), children := cs2\<rparr>"
    by auto
  let ?node' = "n2\<lparr>value_upper := Max (set (map snd qu))\<rparr>"
  have l2: "nodes P' k = Some ?node'" using P2 by simp
  have c: "config P' = config P" using P1 P2 by simp
  have "queue' =
          (if accuracy (config P) < \<bar>value_lower node - value_lower ?node'\<bar>
              \<or> accuracy (config P) < \<bar>value_upper node - value_upper ?node'\<bar>
           then rest @ parents node else rest)"
    using q l2 c d1 d2 n1 n2 by auto
  moreover have "pvi_loop X P (k # rest) = pvi_loop X P' queue'"
    using assms(1) by (subst pvi_loop.simps) simp
  moreover have "pvi_loop X P' [] = Some (Inr P')"
    by (subst pvi_loop.simps) simp
  ultimately show ?thesis
    using b1 b2 l2 n1 n2 P1 by (intro exI [of _ n1] exI [of _ ql] exI [of _ n2] exI [of _ qu] exI [of _ ?node']) simp
qed


lemma example_iteration_1:
  "pvi_iteration example_externals example_table_planner ''s'' [] =
     Inr (example_table_planner_after, [''s''])"
  by (simp add: pvi_iteration_def pvi_field_def backup_def example_table_planner_def
      example_table_planner_after_def example_planner_def example_decision_node_def
      GraphDecisionNode_def GraphChanceNode_def chance_backup_def example_config_def
      example_externals_def)

lemma example_iteration_2:
  "pvi_iteration example_externals example_table_planner_after ''s'' [] =
     Inr (example_table_planner_after, [])"
  by (simp add: pvi_iteration_def pvi_field_def backup_def
      example_table_planner_after_def example_planner_def example_decision_node_def
      GraphDecisionNode_def GraphChanceNode_def chance_backup_def example_config_def
      example_externals_def)

text \<open>The theorem on the example table: the first pass raises \<open>value_upper\<close> of the
  node from 1 to 3 and enqueues its parent, the second changes nothing, and the loop
  returns.\<close>

theorem C8_partial_value_iteration_witness:
  "pvi_iteration example_externals example_table_planner ''s'' [] =
     Inr (example_table_planner_after, [''s''])
   \<and> partial_value_iteration example_externals example_table_planner ''s'' None =
     Some (Inr example_table_planner_after)"
proof -
  have look: "nodes example_table_planner ''s'' = Some (example_decision_node\<lparr>parents := [''s'']\<rparr>)"
    by (simp add: example_table_planner_def)
  from C8_partial_value_iteration [OF example_iteration_1 look]
  have "pvi_loop example_externals example_table_planner [''s''] =
          pvi_loop example_externals example_table_planner_after [''s'']"
    by blast
  also have "\<dots> = pvi_loop example_externals example_table_planner_after []"
    by (subst pvi_loop.simps) (simp add: example_iteration_2)
  also have "\<dots> = Some (Inr example_table_planner_after)"
    by (subst pvi_loop.simps) simp
  finally show ?thesis
    by (simp add: example_iteration_1 partial_value_iteration_def)
qed

subsection \<open>Association lists\<close>

lemma set_update_subset: "set (AList.update k v al) \<subseteq> insert (k, v) (set al)"
  by (induction al) auto

lemma update_fresh: "k \<notin> fst ` set al \<Longrightarrow> AList.update k v al = al @ [(k, v)]"
  by (induction al) auto

lemma sum_delete:
  fixes f :: "'k \<times> 'v \<Rightarrow> nat"
  assumes "distinct (map fst xs)" and "map_of xs k = Some v"
  shows "sum_list (map f xs) = sum_list (map f (AList.delete k xs)) + f (k, v)"
  using assms
proof (induction xs)
  case Nil
  then show ?case by simp
next
  case (Cons x xs)
  show ?case
  proof (cases "fst x = k")
    case True
    with Cons.prems have "x = (k, v)" and "k \<notin> fst ` set xs"
      by (auto simp: prod_eq_iff)
    then show ?thesis by simp
  next
    case False
    with Cons show ?thesis by (cases x) auto
  qed
qed

lemma sum_update_present:
  fixes f :: "'k \<times> 'v \<Rightarrow> nat"
  assumes "map_of xs k = Some old"
  shows "sum_list (map f (AList.update k v xs)) + f (k, old) = sum_list (map f xs) + f (k, v)"
  using assms by (induction xs) (auto split: if_splits)

lemma sum_all_zero:
  fixes f :: "'a \<Rightarrow> nat"
  assumes "\<forall>x \<in> set xs. f x = 0"
  shows "sum_list (map f xs) = 0"
  using assms by (induction xs) auto

subsection \<open>Fresh chance nodes\<close>

lemma placeholders_inv:
  assumes "count v = 0" and "distinct (map fst acc)" and "\<forall>(k, c) \<in> set acc. count c = 0"
  shows "distinct (map fst (foldl (\<lambda>ch i. AList.update (f i) v ch) acc js)) \<and>
         (\<forall>(k, c) \<in> set (foldl (\<lambda>ch i. AList.update (f i) v ch) acc js). count c = 0)"
  using assms(2,3)
proof (induction js arbitrary: acc)
  case Nil
  then show ?case by simp
next
  case (Cons j js)
  have "distinct (map fst (AList.update (f j) v acc))"
    using Cons.prems(1) by (rule distinct_update)
  moreover have "\<forall>(k, c) \<in> set (AList.update (f j) v acc). count c = 0"
    using Cons.prems(2) assms(1) set_update_subset [of "f j" v acc] by auto
  ultimately show ?case using Cons.IH by simp
qed

lemma GraphChanceNode_counts_ok: "chance_counts_ok (GraphChanceNode X cfg par)"
proof -
  have c: "count (decision_core X None ''placeholder'') = 0"
    by (simp add: decision_core_def)
  from placeholders_inv [OF c, of "[]" placeholder_key "[0..<max_next_states_count cfg]"]
  show ?thesis
    by (simp add: chance_counts_ok_def GraphChanceNode_def sum_all_zero case_prod_beta)
qed

subsection \<open>Backups keep the counts\<close>

lemma chance_backup_counts:
  assumes "chance_backup X cfg n tbl cn fld = Inr (cn', v)"
  shows "chance_children cn' = chance_children cn \<and> chance_count cn' = chance_count cn"
  using assms
  by (cases fld) (auto simp: chance_backup_def Let_def split: if_splits sum.splits)

lemma chance_backup_counts_ok:
  assumes "chance_backup X cfg n tbl cn fld = Inr (cn', v)" and "chance_counts_ok cn"
  shows "chance_counts_ok cn'"
  using chance_backup_counts [OF assms(1)] assms(2) by (simp add: chance_counts_ok_def)

lemma backup_items_counts_ok:
  assumes "backup_items X cfg n tbl fld cs = Inr (cs', qs)"
    and "\<forall>(a, cn) \<in> set cs. chance_counts_ok cn"
  shows "\<forall>(a, cn) \<in> set cs'. chance_counts_ok cn"
  using assms
proof (induction cs arbitrary: cs' qs)
  case Nil
  then show ?case by simp
next
  case (Cons x cs)
  obtain a cn where x: "x = (a, cn)" by (cases x)
  from Cons.prems(1) x obtain cn1 v cs1 qs1 where
    b: "chance_backup X cfg n tbl cn fld = Inr (cn1, v)" and
    r: "backup_items X cfg n tbl fld cs = Inr (cs1, qs1)" and
    e: "cs' = (a, cn1) # cs1"
    by (auto split: sum.splits prod.splits)
  from Cons.prems(2) x have "chance_counts_ok cn" by simp
  with b have "chance_counts_ok cn1" by (rule chance_backup_counts_ok)
  moreover from Cons.IH [OF r] Cons.prems(2) have "\<forall>(a, cn) \<in> set cs1. chance_counts_ok cn"
    by simp
  ultimately show ?case using e by simp
qed

lemma backup_counts_ok:
  assumes "backup X P self fld = Inr (self', qs)"
    and "\<forall>(a, cn) \<in> set (children self). chance_counts_ok cn"
  shows "\<forall>(a, cn) \<in> set (children self'). chance_counts_ok cn"
proof -
  from assms(1) obtain cs where
    b: "backup_items X (config P) (action_space_n P) (nodes P) fld (children self) = Inr (cs, qs)"
    and s: "self' = self\<lparr>children := cs\<rparr>"
    by (auto simp: backup_def split: sum.splits prod.splits)
  from backup_items_counts_ok [OF b assms(2)] s show ?thesis by simp
qed

lemma expand_inv:
  assumes "\<forall>(a, cn) \<in> set acc. chance_counts_ok cn" and "chance_counts_ok c"
  shows "\<forall>(a, cn) \<in> set (foldl (\<lambda>ch a. AList.update a c ch) acc as). chance_counts_ok cn"
  using assms(1)
proof (induction as arbitrary: acc)
  case Nil
  then show ?case by simp
next
  case (Cons a as)
  have "\<forall>(a, cn) \<in> set (AList.update a c acc). chance_counts_ok cn"
    using Cons.prems assms(2) set_update_subset [of a c acc] by auto
  then show ?case using Cons.IH by simp
qed

lemma expand_counts_ok:
  assumes "expand X E P self = Inr self'"
    and "\<forall>(a, cn) \<in> set (children self). chance_counts_ok cn"
  shows "\<forall>(a, cn) \<in> set (children self'). chance_counts_ok cn"
proof -
  from assms(1) obtain acts where
    s: "self' = self\<lparr>children :=
          foldl (\<lambda>ch a. AList.update a (GraphChanceNode X (config P) (observation self)) ch)
            (children self) acts\<rparr>"
    by (auto simp: expand_def split: sum.splits)
  from expand_inv [OF assms(2) GraphChanceNode_counts_ok] s show ?thesis by simp
qed

lemma sampling_rule_counts_ok:
  assumes "sampling_rule X E P self = Inr (self', a)"
    and "\<forall>(a, cn) \<in> set (children self). chance_counts_ok cn"
  shows "\<forall>(a, cn) \<in> set (children self'). chance_counts_ok cn"
proof -
  from assms(1) obtain self1 q where
    e: "(if children self = [] then expand X E P self else Inr self) = Inr self1" and
    b: "backup X P self1 Value_upper = Inr (self', q)"
    by (auto simp: sampling_rule_def split: sum.splits prod.splits)
  have "\<forall>(a, cn) \<in> set (children self1). chance_counts_ok cn"
  proof (cases "children self = []")
    case True
    with e have "expand X E P self = Inr self1" by simp
    then show ?thesis using assms(2) by (rule expand_counts_ok)
  next
    case False
    with e assms(2) show ?thesis by simp
  qed
  with b show ?thesis by (rule backup_counts_ok)
qed

subsection \<open>Getting a child keeps the counts\<close>

lemma get_node_cases:
  assumes "get_node X P obs st = (P1, n)"
  shows "nodes P1 = (nodes P)(obs \<mapsto> n) \<and> config P1 = config P \<and>
         (case nodes P obs of None \<Rightarrow> children n = [] | Some m \<Rightarrow> children n = children m)"
  using assms
  by (auto simp: get_node_def Let_def GraphDecisionNode_def split: option.splits if_splits)

lemma get_node_counts_ok:
  assumes "get_node X P obs st = (P1, n)" and "counts_ok P"
  shows "counts_ok P1 \<and> nodes P1 obs = Some n \<and> config P1 = config P \<and>
         (\<forall>(a, cn) \<in> set (children n). chance_counts_ok cn)"
proof -
  from get_node_cases [OF assms(1)] have
    t: "nodes P1 = (nodes P)(obs \<mapsto> n)" and c: "config P1 = config P" and
    ch: "case nodes P obs of None \<Rightarrow> children n = [] | Some m \<Rightarrow> children n = children m"
    by simp_all
  have n_ok: "\<forall>(a, cn) \<in> set (children n). chance_counts_ok cn"
  proof (cases "nodes P obs")
    case None
    with ch show ?thesis by simp
  next
    case (Some m)
    with ch assms(2) show ?thesis by (auto simp: counts_ok_def)
  qed
  have "counts_ok P1"
    unfolding counts_ok_def
  proof (intro allI impI)
    fix k m
    assume "nodes P1 k = Some m"
    with t have "(k = obs \<and> m = n) \<or> nodes P k = Some m"
      by (auto split: if_splits)
    then show "\<forall>(a, cn) \<in> set (children m). chance_counts_ok cn"
    proof
      assume "k = obs \<and> m = n"
      with n_ok show ?thesis by simp
    next
      assume "nodes P k = Some m"
      with assms(2) show ?thesis unfolding counts_ok_def by blast
    qed
  qed
  with t c n_ok show ?thesis by simp
qed

lemma chance_get_child_node:
  assumes "chance_get_child X P cn obs = Inr (P', cn')" and "chance_counts_ok cn"
  shows "chance_counts_ok cn' \<and> chance_count cn' = chance_count cn \<and>
         obs \<in> fst ` set (chance_children cn')"
proof (cases "obs \<in> set (map fst (chance_children cn))")
  case True
  with assms show ?thesis by (simp add: chance_get_child_def)
next
  case False
  with assms(1) obtain i node where
    m: "map_of (chance_children cn) (placeholder_key i) = Some node" and
    c: "cn' = cn\<lparr>chance_children :=
                AList.update obs (node\<lparr>observation := obs\<rparr>)
                  (AList.delete (placeholder_key i) (chance_children cn))\<rparr>"
    by (auto simp: chance_get_child_def Let_def split: option.splits prod.splits)
  let ?xs = "chance_children cn"
  let ?ys = "AList.delete (placeholder_key i) ?xs"
  let ?f = "\<lambda>(k, c). count c"
  from assms(2) have d: "distinct (map fst ?xs)" and s: "sum_list (map ?f ?xs) = chance_count cn"
    by (simp_all add: chance_counts_ok_def)
  from False have fresh: "obs \<notin> fst ` set ?ys"
    by (auto simp: AList.delete_eq)
  have "distinct (map fst ?ys)" using d by (rule distinct_delete)
  then have d': "distinct (map fst (AList.update obs (node\<lparr>observation := obs\<rparr>) ?ys))"
    by (rule distinct_update)
  have "sum_list (map ?f (AList.update obs (node\<lparr>observation := obs\<rparr>) ?ys)) =
          sum_list (map ?f ?ys) + count node"
    using fresh by (simp add: update_fresh)
  also have "\<dots> = sum_list (map ?f ?xs)"
    using sum_delete [OF d m, of ?f] by simp
  finally have s': "sum_list (map ?f (AList.update obs (node\<lparr>observation := obs\<rparr>) ?ys)) =
                      chance_count cn"
    using s by simp
  have "obs \<in> fst ` set (AList.update obs (node\<lparr>observation := obs\<rparr>) ?ys)"
    by (simp add: dom_update)
  with c d' s' show ?thesis by (simp add: chance_counts_ok_def)
qed

lemma chance_get_child_planner:
  assumes "chance_get_child X P cn obs = Inr (P', cn')" and "counts_ok P"
  shows "counts_ok P' \<and> config P' = config P \<and>
         (\<forall>k n. nodes P k = Some n \<longrightarrow> (\<exists>n'. nodes P' k = Some n' \<and> children n' = children n))"
proof (cases "obs \<in> set (map fst (chance_children cn))")
  case True
  with assms show ?thesis by (simp add: chance_get_child_def)
next
  case False
  obtain P1 canonical where g: "get_node X P obs None = (P1, canonical)"
    by (cases "get_node X P obs None")
  from False assms(1) g have
    P': "P' = P1\<lparr>nodes := (nodes P1)(obs \<mapsto>
                 canonical\<lparr>parents := List.insert (parent cn) (parents canonical)\<rparr>)\<rparr>"
    by (auto simp: chance_get_child_def Let_def split: option.splits)
  from get_node_counts_ok [OF g assms(2)] have
    ok1: "counts_ok P1" and n1: "nodes P1 obs = Some canonical" and c1: "config P1 = config P" and
    ch: "\<forall>(a, cn) \<in> set (children canonical). chance_counts_ok cn"
    by simp_all
  have keep: "\<exists>n'. nodes P' k = Some n' \<and> children n' = children n" if "nodes P k = Some n" for k n
  proof (cases "k = obs")
    case True
    with that get_node_cases [OF g] have "children canonical = children n" by simp
    with True P' show ?thesis by simp
  next
    case False
    with that get_node_cases [OF g] have "nodes P1 k = Some n" by simp
    with False P' show ?thesis by simp
  qed
  have "counts_ok P'"
    using ok1 ch P' by (auto simp: counts_ok_def)
  with c1 P' keep show ?thesis by simp
qed

lemma update_count:
  assumes "update X cfg n self r = Inr (self', msgs)"
  shows "count self' = count self + 1 \<and> node_core.more self' = node_core.more self"
  using assms
  by (auto simp: update_def compute_reward_ucb_def Let_def split: option.splits if_splits)

subsection \<open>The loop of run keeps the counts\<close>

lemma update_children:
  fixes self :: "'s graph_decision_node"
  assumes "update X cfg n self r = Inr (self', msgs)"
  shows "children self' = children self"
  using assms
  by (auto simp: update_def compute_reward_ucb_def Let_def split: option.splits if_splits)

lemma visit_counts_ok:
  assumes "chance_counts_ok cn" and "map_of (chance_children cn) obs = Some child"
    and "count child' = count child + 1"
  shows "chance_counts_ok
           ((chance_update cn)\<lparr>chance_children :=
               AList.update obs child' (chance_children (chance_update cn))\<rparr>)"
proof -
  let ?f = "\<lambda>(k, c). count c"
  from assms(2) have "obs \<in> set (map fst (chance_children cn))"
    by (auto dest: map_of_SomeD intro: rev_image_eqI)
  then have "map fst (AList.update obs child' (chance_children cn)) = map fst (chance_children cn)"
    by (simp add: update_keys)
  moreover have "sum_list (map ?f (AList.update obs child' (chance_children cn))) =
                   sum_list (map ?f (chance_children cn)) + 1"
    using sum_update_present [OF assms(2), of ?f child'] assms(3) by simp
  ultimately show ?thesis
    using assms(1) by (simp add: chance_counts_ok_def chance_update_def)
qed

lemma run_step_counts_ok:
  assumes "run_step X E (P, s, obs, q) = Inr (P', s', obs', q')" and "counts_ok P"
  shows "counts_ok P'"
proof -
  obtain P1 dn where g: "get_node X P obs (Some s) = (P1, dn)"
    by (cases "get_node X P obs (Some s)")
  from get_node_counts_ok [OF g assms(2)] have
    ok1: "counts_ok P1" and dn_ok: "\<forall>(a, cn) \<in> set (children dn). chance_counts_ok cn"
    by simp_all
  from assms(1) g obtain dn1 act where sr: "sampling_rule X E P1 dn = Inr (dn1, act)"
    by (auto simp: run_step_def split: sum.splits prod.splits)
  from sampling_rule_counts_ok [OF sr dn_ok]
  have dn1_ok: "\<forall>(a, cn) \<in> set (children dn1). chance_counts_ok cn" .
  define P2 where "P2 = P1\<lparr>nodes := (nodes P1)(obs \<mapsto> dn1), draws := draws P1 + 1\<rparr>"
  have ok2: "counts_ok P2"
    using ok1 dn1_ok by (auto simp: counts_ok_def P2_def)
  have n2: "nodes P2 obs = Some dn1" by (simp add: P2_def)
  from assms(1) g sr obtain cn where gc: "get_child dn1 act = Inr cn"
    by (auto simp: run_step_def Let_def split: sum.splits prod.splits)
  then have "map_of (children dn1) act = Some cn"
    by (auto simp: get_child_def split: option.splits)
  then have "(act, cn) \<in> set (children dn1)" by (rule map_of_SomeD)
  with dn1_ok have cn_ok: "chance_counts_ok cn" by auto
  obtain obs1 reward fin s1 where st: "env_step E s act = (obs1, reward, fin, s1)"
    by (cases "env_step E s act")
  from assms(1) g sr gc st obtain P3 cn1 where
    cg: "chance_get_child X P2 cn obs1 = Inr (P3, cn1)"
    by (auto simp: run_step_def Let_def P2_def split: sum.splits prod.splits)
  from chance_get_child_node [OF cg cn_ok] have
    cn1_ok: "chance_counts_ok cn1" and in1: "obs1 \<in> fst ` set (chance_children cn1)"
    by simp_all
  from chance_get_child_planner [OF cg ok2] n2 obtain dn2 where
    ok3: "counts_ok P3" and n3: "nodes P3 obs = Some dn2" and ch2: "children dn2 = children dn1"
    by blast
  from assms(1) g sr gc st cg n3 obtain dn3 msgs1 child child1 msgs2 where
    u1: "update X (config P3) (action_space_n P3) dn2 None = Inr (dn3, msgs1)" and
    m: "map_of (chance_children (chance_update cn1)) obs1 = Some child" and
    u2: "update X (config P3) (action_space_n P3) child (Some reward) = Inr (child1, msgs2)" and
    P': "P' = P3\<lparr>nodes := (nodes P3)(obs \<mapsto>
                 dn3\<lparr>children := AList.update act
                        ((chance_update cn1)\<lparr>chance_children :=
                            AList.update obs1 child1 (chance_children (chance_update cn1))\<rparr>)
                        (children dn3)\<rparr>),
               logger := logger P3 @ msgs1 @ msgs2\<rparr>"
    by (auto simp: run_step_def Let_def P2_def split: sum.splits prod.splits option.splits)
  from update_children [OF u1] ch2 have ch3: "children dn3 = children dn1"
    by simp
  from m have m': "map_of (chance_children cn1) obs1 = Some child"
    by (simp add: chance_update_def)
  from update_count [OF u2] have "count child1 = count child + 1" by simp
  with cn1_ok m' have cn3_ok:
    "chance_counts_ok ((chance_update cn1)\<lparr>chance_children :=
        AList.update obs1 child1 (chance_children (chance_update cn1))\<rparr>)"
    by (rule visit_counts_ok)
  let ?cn3 = "(chance_update cn1)\<lparr>chance_children :=
                AList.update obs1 child1 (chance_children (chance_update cn1))\<rparr>"
  have "\<forall>(a, c) \<in> set (AList.update act ?cn3 (children dn1)). chance_counts_ok c"
    using dn1_ok cn3_ok set_update_subset [of act ?cn3 "children dn1"] by auto
  with ok3 P' ch3 show ?thesis
    by (auto simp: counts_ok_def)
qed

lemma run_loop_counts_ok:
  assumes "run_loop X E h st = Inr st'" and "counts_ok (fst st)"
  shows "counts_ok (fst st')"
  using assms
proof (induction h arbitrary: st)
  case 0
  then show ?case by simp
next
  case (Suc h)
  from Suc.prems(1) obtain st1 where r: "run_step X E st = Inr st1"
    and l: "run_loop X E h st1 = Inr st'"
    by (auto split: sum.splits)
  obtain P s obs q where st: "st = (P, s, obs, q)" by (cases st)
  obtain P1 s1 obs1 q1 where st1: "st1 = (P1, s1, obs1, q1)" by (cases st1)
  from r st st1 Suc.prems(2) have "counts_ok P1"
    using run_step_counts_ok [of X E P s obs q P1 s1 obs1 q1] by simp
  with Suc.IH [OF l] st1 show ?case by simp
qed

text \<open>A pass of the value iteration keeps the counts as well.\<close>

lemma pvi_field_counts_ok:
  assumes "pvi_field X P k fld d = Inr (P1, d1)" and "counts_ok P"
  shows "counts_ok P1"
proof -
  from assms(1) obtain node where n: "nodes P k = Some node"
    by (auto simp: pvi_field_def split: option.splits)
  from pvi_field_Inr [OF assms(1) n] obtain n1 q where
    b: "backup X P node fld = Inr (n1, q)" and
    P1: "P1 = P\<lparr>nodes := (nodes P)(k \<mapsto> setattr n1 fld (Max (set (map snd q))))\<rparr>"
    by auto
  from assms(2) n have "\<forall>(a, cn) \<in> set (children node). chance_counts_ok cn"
    by (auto simp: counts_ok_def)
  with b have "\<forall>(a, cn) \<in> set (children n1). chance_counts_ok cn"
    by (rule backup_counts_ok)
  moreover have "children (setattr n1 fld v) = children n1" for v
    by (cases fld) simp_all
  ultimately show ?thesis
    using assms(2) P1 by (auto simp: counts_ok_def)
qed

lemma pvi_iteration_counts_ok:
  assumes "pvi_iteration X P k rest = Inr (P', queue')" and "counts_ok P"
  shows "counts_ok P'"
proof -
  from assms(1) obtain P1 d1 d2 where
    "pvi_field X P k Value_lower 0 = Inr (P1, d1)" and
    "pvi_field X P1 k Value_upper d1 = Inr (P', d2)"
    by (auto simp: pvi_iteration_def split: sum.splits if_splits)
  with assms(2) show ?thesis
    by (blast intro: pvi_field_counts_ok)
qed

lemma counts_ok_empty: "nodes P = Map.empty \<Longrightarrow> counts_ok P"
  by (simp add: counts_ok_def)

text \<open>
  The sum of the counts. From a planner in which the visit counts of the children of
  every chance node add up to the visit count of that chance node (as in every planner
  whose table is empty, and for every chance node that its constructor has just made),
  any number of passes of the loop of \<^verbatim>\<open>run\<close> that raise no exception lead to a planner
  where this holds again, for every chance node of every node of the table: every pass
  adds one to the count of one chance node and to the count of one of its children.
\<close>

theorem run_loop_child_counts_sum:
  assumes "run_loop X E h (P, s, obs, q) = Inr (P', s', obs', q')" and "counts_ok P"
  shows "counts_ok P' \<and>
         (\<forall>k n a cn. nodes P' k = Some n \<longrightarrow> (a, cn) \<in> set (children n) \<longrightarrow>
            sum_list (map (\<lambda>(key, child). count child) (chance_children cn)) = chance_count cn)"
proof -
  from run_loop_counts_ok [OF assms(1)] assms(2) have ok: "counts_ok P'" by simp
  have "sum_list (map (\<lambda>(key, child). count child) (chance_children cn)) = chance_count cn"
    if "nodes P' k = Some n" and "(a, cn) \<in> set (children n)" for k n a cn
  proof -
    from ok that have "chance_counts_ok cn" by (fastforce simp: counts_ok_def)
    then show ?thesis by (simp add: chance_counts_ok_def)
  qed
  with ok show ?thesis by blast
qed

lemma example_step_1:
  "(case run_step example_externals example_env (example_planner, (), ''s'', []) of
      Inl e \<Rightarrow> False
    | Inr (P', s', obs', q') \<Rightarrow>
        (case nodes P' ''s'' of
           None \<Rightarrow> False
         | Some n \<Rightarrow>
             map (\<lambda>(a, cn). (chance_count cn, map (\<lambda>(k, c). (k, count c)) (chance_children cn)))
               (children n) =
             [(1, [(''placeholder_1'', 0), (''s'', 1)]),
              (0, [(''placeholder_0'', 0), (''placeholder_1'', 0)])]))"
  by (simp add: run_step_def example_planner_def get_node_def GraphDecisionNode_def
     sampling_rule_def expand_def actions_list_def example_env_def upt_2 example_chance_children
     backup_def chance_backup_def GraphChanceNode_def choose_action_def example_externals_def
     get_child_def chance_get_child_def example_config_def placeholder_key_0 placeholder_key_1
     update_def compute_reward_ucb_def chance_update_def decision_core_def Let_def)


lemma example_loop_2:
  "(case run_loop example_externals example_env (Suc (Suc 0)) (example_planner, (), ''s'', []) of
      Inl e \<Rightarrow> False
    | Inr (P', s', obs', q') \<Rightarrow>
        (case nodes P' ''s'' of
           None \<Rightarrow> False
         | Some n \<Rightarrow>
             map (\<lambda>(a, cn). (chance_count cn, map (\<lambda>(k, c). (k, count c)) (chance_children cn)))
               (children n) =
             [(2, [(''placeholder_1'', 0), (''s'', 2)]),
              (0, [(''placeholder_0'', 0), (''placeholder_1'', 0)])]))"
  by (simp add: run_step_def example_planner_def get_node_def GraphDecisionNode_def
     sampling_rule_def expand_def actions_list_def example_env_def upt_2 example_chance_children
     backup_def chance_backup_def GraphChanceNode_def choose_action_def example_externals_def
     get_child_def chance_get_child_def example_config_def placeholder_key_0 placeholder_key_1
     update_def compute_reward_ucb_def chance_update_def decision_core_def Let_def
     transition_threshold_def get_field_def dot_def)

text \<open>The theorem on two passes from the empty planner in the environment with one
  state: the chance node of the action 0 has the count 2, and its children the counts 0
  and 2.\<close>

theorem run_loop_child_counts_example:
  "(case run_loop example_externals example_env (Suc (Suc 0)) (example_planner, (), ''s'', []) of
      Inl e \<Rightarrow> False
    | Inr (P', s', obs', q') \<Rightarrow>
        counts_ok P' \<and>
        (case nodes P' ''s'' of
           None \<Rightarrow> False
         | Some n \<Rightarrow>
             map (\<lambda>(a, cn). (chance_count cn, map (\<lambda>(k, c). (k, count c)) (chance_children cn)))
               (children n) =
             [(2, [(''placeholder_1'', 0), (''s'', 2)]),
              (0, [(''placeholder_0'', 0), (''placeholder_1'', 0)])]))"
proof (cases "run_loop example_externals example_env (Suc (Suc 0)) (example_planner, (), ''s'', [])")
  case (Inl e)
  with example_loop_2 show ?thesis by simp
next
  case (Inr r)
  obtain P' s' obs' q' where r: "r = (P', s', obs', q')" by (cases r)
  have "counts_ok example_planner"
    by (rule counts_ok_empty) (simp add: example_planner_def)
  with run_loop_child_counts_sum [of example_externals example_env "Suc (Suc 0)" example_planner "()" "''s''" "[]"
      P' s' obs' q'] Inr r
  have "counts_ok P'" by simp
  with example_loop_2 Inr r show ?thesis by simp
qed

text \<open>
  Two passes in the environment with two states: the second pass starts at the
  observation "t", which the first pass met as the outcome of its transition. The node
  of "t" takes the state of the second pass and is expanded, and the loop goes on.
\<close>

lemma example_two_states:
  "(case run_loop example_externals example_env_two (Suc (Suc 0))
           (example_planner_two, False, ''s'', []) of
      Inl e \<Rightarrow> False
    | Inr (P', s', obs', q') \<Rightarrow>
        obs' = ''s'' \<and> q' = [''s'', ''t''] \<and>
        (case nodes P' ''t'' of
           None \<Rightarrow> False
         | Some n \<Rightarrow>
             state n = Some True \<and> parents n = [''s''] \<and>
             map (\<lambda>(a, cn). (chance_count cn, map (\<lambda>(k, c). (k, count c)) (chance_children cn)))
               (children n) =
             [(1, [(''placeholder_1'', 0), (''s'', 1)]),
              (0, [(''placeholder_0'', 0), (''placeholder_1'', 0)])]))"
  by (simp add: run_step_def example_planner_two_def get_node_def GraphDecisionNode_def
     sampling_rule_def expand_def actions_list_def example_env_two_def upt_2 example_chance_children
     backup_def chance_backup_def GraphChanceNode_def choose_action_def example_externals_def
     get_child_def chance_get_child_def example_config_def placeholder_key_0 placeholder_key_1
     update_def compute_reward_ucb_def chance_update_def decision_core_def Let_def
     transition_threshold_def get_field_def dot_def)

text \<open>
  C9 fails on the code when the string of an observation is a placeholder key. The sum
  of the counts of the children is the count of the chance node, as the claim has it
  (\<open>run_loop_child_counts_sum\<close>), but an unrealized placeholder does not keep the count 0.
  In an environment whose observation is the string "placeholder_1", one pass of the loop
  of \<^verbatim>\<open>run\<close> from the empty planner visits the chance node of the action 0 once; its
  \<^verbatim>\<open>get_child\<close> finds the key "placeholder_1" among the children and returns that
  placeholder as it is. After the pass the child under the key "placeholder_1" still has
  the observation "placeholder", the table has no node for "placeholder_1", and the count
  of this unrealized placeholder is 1.
\<close>

theorem C9_placeholder_visited:
  "(case run_step example_externals example_env_placeholder (example_planner, (), ''s'', []) of
      Inl e \<Rightarrow> False
    | Inr (P', s', obs', q') \<Rightarrow>
        nodes P' ''placeholder_1'' = None \<and>
        (case nodes P' ''s'' of
           None \<Rightarrow> False
         | Some n \<Rightarrow>
             map (\<lambda>(a, cn). (chance_count cn,
                               map (\<lambda>(k, c). (k, observation c, count c)) (chance_children cn)))
               (children n) =
             [(1, [(''placeholder_0'', ''placeholder'', 0), (''placeholder_1'', ''placeholder'', 1)]),
              (0, [(''placeholder_0'', ''placeholder'', 0), (''placeholder_1'', ''placeholder'', 0)])]))"
  by (simp add: run_step_def example_planner_def get_node_def GraphDecisionNode_def
     sampling_rule_def expand_def actions_list_def example_env_placeholder_def upt_2
     example_chance_children
     backup_def chance_backup_def GraphChanceNode_def choose_action_def example_externals_def
     get_child_def chance_get_child_def example_config_def placeholder_key_0 placeholder_key_1
     update_def compute_reward_ucb_def chance_update_def decision_core_def Let_def)

end
